theory Spec2Isabelle
  imports Complex_Main "HOL-Library.Multiset"
begin

section \<open>Numbers and data model\<close>

text \<open>
  The video processor computes on JavaScript numbers, which are IEEE 754 binary64 values.
  A number is a finite real, an infinity or \<open>NaN\<close>; the results of the arithmetic
  operations are rounded to the nearest binary64 value, ties to the even significand, and
  overflow to an infinity. Zero is not signed: no divisor in the code can be a negative
  zero, and comparisons do not tell the two zeros apart.

  The bounding boxes and scores that the detector returns are finite numbers and are kept
  as reals; the classifier and the heatmap only compare them and take floors. Counters that
  start at 0 and are only incremented are naturals; heatmap cells are integers.
\<close>

datatype jsnumber = Finite real | PosInfinity | NegInfinity | NaN

definition pow2 :: "int \<Rightarrow> real" where
  "pow2 e = (if 0 \<le> e then 2 ^ nat e else 1 / 2 ^ nat (- e))"

text \<open>
  The binary exponent \<open>\<lfloor>log\<^sub>2 y\<rfloor>\<close> of a positive \<open>y\<close>, found by halving or doubling,
  and never below \<open>-1022\<close>, the exponent of the subnormal numbers.
\<close>

fun halvings :: "nat \<Rightarrow> real \<Rightarrow> int" where
  "halvings 0 y = 0"
| "halvings (Suc n) y = (if y < 2 then 0 else 1 + halvings n (y / 2))"

fun doublings :: "nat \<Rightarrow> real \<Rightarrow> int" where
  "doublings 0 y = 0"
| "doublings (Suc n) y = (if 1 \<le> y then 0 else doublings n (y * 2) - 1)"

definition exponent :: "real \<Rightarrow> int" where
  "exponent y = (if 1 \<le> y then halvings 1024 y else doublings 1022 y)"

definition round_even :: "real \<Rightarrow> int" where
  \<comment> \<open>the nearest integer, the even one of the two when they are equally near\<close>
  "round_even r =
     (if r - of_int \<lfloor>r\<rfloor> < 1 / 2 then \<lfloor>r\<rfloor>
      else if 1 / 2 < r - of_int \<lfloor>r\<rfloor> then \<lfloor>r\<rfloor> + 1
      else if even \<lfloor>r\<rfloor> then \<lfloor>r\<rfloor> else \<lfloor>r\<rfloor> + 1)"

definition fl :: "real \<Rightarrow> jsnumber" where
  \<comment> \<open>rounding of an exact result to binary64: 53 significant bits, so the last place of
     a number with exponent \<open>e\<close> is \<open>2\<^sup>e\<^sup>-\<^sup>5\<^sup>2\<close>\<close>
  "fl x =
     (if x = 0 then Finite 0
      else let q = pow2 (exponent \<bar>x\<bar> - 52);
               v = of_int (round_even (x / q)) * q
           in if 2 ^ 1024 \<le> \<bar>v\<bar> then (if 0 < x then PosInfinity else NegInfinity)
              else Finite v)"

fun js_less :: "jsnumber \<Rightarrow> jsnumber \<Rightarrow> bool" where
  "js_less (Finite a) (Finite b) = (a < b)"
| "js_less NaN b = False"
| "js_less a NaN = False"
| "js_less NegInfinity NegInfinity = False"
| "js_less NegInfinity b = True"
| "js_less a NegInfinity = False"
| "js_less PosInfinity b = False"
| "js_less a PosInfinity = True"

fun js_neg :: "jsnumber \<Rightarrow> jsnumber" where
  "js_neg (Finite a) = Finite (- a)"
| "js_neg PosInfinity = NegInfinity"
| "js_neg NegInfinity = PosInfinity"
| "js_neg NaN = NaN"

fun js_add :: "jsnumber \<Rightarrow> jsnumber \<Rightarrow> jsnumber" where
  "js_add (Finite a) (Finite b) = fl (a + b)"
| "js_add NaN b = NaN"
| "js_add a NaN = NaN"
| "js_add PosInfinity NegInfinity = NaN"
| "js_add NegInfinity PosInfinity = NaN"
| "js_add PosInfinity b = PosInfinity"
| "js_add a PosInfinity = PosInfinity"
| "js_add NegInfinity b = NegInfinity"
| "js_add a NegInfinity = NegInfinity"

definition js_sub :: "jsnumber \<Rightarrow> jsnumber \<Rightarrow> jsnumber" where
  "js_sub a b = js_add a (js_neg b)"

fun js_sign :: "jsnumber \<Rightarrow> int" where
  "js_sign (Finite a) = sgn \<lfloor>sgn a\<rfloor>"
| "js_sign PosInfinity = 1"
| "js_sign NegInfinity = - 1"
| "js_sign NaN = 0"

fun js_mul :: "jsnumber \<Rightarrow> jsnumber \<Rightarrow> jsnumber" where
  "js_mul (Finite a) (Finite b) = fl (a * b)"
| "js_mul NaN b = NaN"
| "js_mul a NaN = NaN"
| "js_mul a b =
     (if js_sign a * js_sign b = 0 then NaN
      else if 0 < js_sign a * js_sign b then PosInfinity else NegInfinity)"

definition js_div :: "real \<Rightarrow> real \<Rightarrow> jsnumber" where
  \<comment> \<open>\<open>a / b\<close> on finite operands, the divisor a non-negative zero when it is zero\<close>
  "js_div a b =
     (if b = 0 then (if a = 0 then NaN else if 0 < a then PosInfinity else NegInfinity)
      else fl (a / b))"

fun js_divide :: "jsnumber \<Rightarrow> jsnumber \<Rightarrow> jsnumber" where
  "js_divide (Finite a) (Finite b) = js_div a b"
| "js_divide NaN b = NaN"
| "js_divide a NaN = NaN"
| "js_divide (Finite a) b = Finite 0"
| "js_divide PosInfinity (Finite b) = (if b < 0 then NegInfinity else PosInfinity)"
| "js_divide NegInfinity (Finite b) = (if b < 0 then PosInfinity else NegInfinity)"
| "js_divide a b = NaN"

text \<open>
  \<open>Math.sqrt\<close> and \<open>Math.pow(x, 2)\<close> are taken as the correctly rounded square root
  and square.
\<close>

fun js_sqrt :: "jsnumber \<Rightarrow> jsnumber" where
  "js_sqrt (Finite a) = (if a < 0 then NaN else fl (sqrt a))"
| "js_sqrt PosInfinity = PosInfinity"
| "js_sqrt NegInfinity = NaN"
| "js_sqrt NaN = NaN"

definition js_pow_2 :: "jsnumber \<Rightarrow> jsnumber" where
  "js_pow_2 a = js_mul a a"

text \<open>The detector's output: \<open>{ box: { xmin, ymin, xmax, ymax }, score, label }\<close>.\<close>

record Box =
  xmin :: real
  ymin :: real
  xmax :: real
  ymax :: real

record Detection =
  box :: Box
  det_score :: real
  det_label :: string

record DetectionResult =
  bbox :: "real \<times> real \<times> real \<times> real"
  score :: real
  label :: string

record TennisAnalysis =
  frame :: nat
  timestamp :: jsnumber
  players :: "DetectionResult list"
  ball :: "DetectionResult option"
  court :: "DetectionResult option"

datatype error =
  NotInitialized          \<comment> \<open>\<open>Error('Processor not initialized')\<close>\<close>
  | NoCanvasContext       \<comment> \<open>\<open>Error('Canvas context not available')\<close>\<close>
  | NullDetector          \<comment> \<open>calling \<open>objectDetector\<close> while it is \<open>null\<close>\<close>
  | Thrown string         \<comment> \<open>whatever the model loader or the detector throws\<close>

section \<open>Frame classifier\<close>

definition isBallLike :: "DetectionResult \<Rightarrow> bool" where
  "isBallLike result =
     (case bbox result of (x1, y1, x2, y2) \<Rightarrow>
        let width = x2 - x1; height = y2 - y1; area = width * height
        in area < 2000 \<and> \<bar>width - height\<bar> < min width height * 0.5)"

definition isCourtLike :: "DetectionResult \<Rightarrow> bool" where
  "isCourtLike result =
     (case bbox result of (x1, y1, x2, y2) \<Rightarrow>
        let width = x2 - x1; height = y2 - y1; area = width * height
        in area > 50000 \<and> width > height * 1.5)"

definition to_result :: "Detection \<Rightarrow> DetectionResult" where
  \<comment> \<open>the \<open>result\<close> object built from one detection\<close>
  "to_result detection =
     \<lparr>bbox = (xmin (box detection), ymin (box detection),
              xmax (box detection), ymax (box detection)),
      score = det_score detection,
      label = det_label detection\<rparr>"

definition keep_best :: "DetectionResult option \<Rightarrow> DetectionResult \<Rightarrow> DetectionResult option" where
  \<comment> \<open>\<open>if (!cand || score > cand.score) cand = result\<close>\<close>
  "keep_best cand result =
     (case cand of
        None \<Rightarrow> Some result
      | Some cur \<Rightarrow> if score result > score cur then Some result else Some cur)"

text \<open>
  The body of the loop over the detections in \<open>processFrame\<close>; the state is the triple of
  the local variables \<open>players\<close>, \<open>ball\<close> and \<open>court\<close>.
\<close>

type_synonym classified = "DetectionResult list \<times> DetectionResult option \<times> DetectionResult option"

fun classify_step :: "classified \<Rightarrow> Detection \<Rightarrow> classified" where
  "classify_step (ps, b, c) detection =
     (if det_score detection < 0.5 then (ps, b, c)
      else let result = to_result detection in
        if det_label detection = ''person'' then (ps @ [result], b, c)
        else if det_label detection = ''sports ball'' \<or> isBallLike result
          then (ps, keep_best b result, c)
        else if isCourtLike result then (ps, b, keep_best c result)
        else (ps, b, c))"

definition classify :: "Detection list \<Rightarrow> classified" where
  "classify detections = foldl classify_step ([], None, None) detections"

record 'f VideoProcessor =
  objectDetector :: "('f \<Rightarrow> error + Detection list) option"
  initialized :: bool

definition initialize ::
  "(error + ('f \<Rightarrow> error + Detection list)) \<Rightarrow> 'f VideoProcessor \<Rightarrow> error + 'f VideoProcessor" where
  \<comment> \<open>the first argument is the outcome of loading the model with \<open>pipeline(...)\<close>\<close>
  "initialize pipeline this =
     (if initialized this then Inr this
      else case pipeline of
             Inl e \<Rightarrow> Inl e
           | Inr d \<Rightarrow> Inr (this\<lparr>objectDetector := Some d, initialized := True\<rparr>))"

definition processFrame ::
  "'f VideoProcessor \<Rightarrow> 'f \<Rightarrow> nat \<Rightarrow> jsnumber \<Rightarrow> error + TennisAnalysis" where
  "processFrame this canvas frameNumber ts =
     (if \<not> initialized this then Inl NotInitialized
      else case objectDetector this of
             None \<Rightarrow> Inl NullDetector
           | Some detect \<Rightarrow>
               (case detect canvas of
                  Inl e \<Rightarrow> Inl e
                | Inr detections \<Rightarrow>
                    (case classify detections of (ps, b, c) \<Rightarrow>
                       Inr \<lparr>frame = frameNumber, timestamp = ts,
                            players = take 2 ps, ball = b, court = c\<rparr>)))"

section \<open>Pipeline orchestrator\<close>

text \<open>
  The video source: its duration in seconds, a number that may also be \<open>NaN\<close> (no media)
  or infinite (a stream), and the picture that is on the canvas after seeking to a time
  and drawing. \<open>processVideo\<close> keeps, besides the \<open>results\<close> array, two logs of what it
  did: the times it assigned to \<open>video.currentTime\<close> and the frames whose error it caught
  and wrote to the console. Every seek is taken to complete (the \<open>seeked\<close> event fires),
  and the optional callbacks \<open>onProgress\<close> and \<open>onFrame\<close> are taken as not supplied.

  The loop runs while the current time is below the duration, so it need not end: the
  loop, and \<open>processVideo\<close> with it, has an optional result, \<open>None\<close> when it does not
  return.
\<close>

record 'f Video =
  duration :: jsnumber
  frame_at :: "jsnumber \<Rightarrow> 'f"

record Run =
  results :: "TennisAnalysis list"
  seeks :: "jsnumber list"
  logged :: "(nat \<times> error) list"

definition fps :: jsnumber where
  "fps = Finite 30"

definition frameInterval :: jsnumber where
  "frameInterval = js_divide (Finite 1) fps"

partial_function (option) processVideo_loop ::
  "'f VideoProcessor \<Rightarrow> 'f Video \<Rightarrow> jsnumber \<Rightarrow> nat \<Rightarrow> Run \<Rightarrow> Run option" where
  "processVideo_loop this video currentTime frameNumber st =
     (if js_less currentTime (duration video) then
        processVideo_loop this video
          (js_add currentTime (js_mul frameInterval (Finite 5))) (frameNumber + 1)
          (case processFrame this (frame_at video currentTime) frameNumber currentTime of
             Inr analysis \<Rightarrow>
               st\<lparr>results := results st @ [analysis], seeks := seeks st @ [currentTime]\<rparr>
           | Inl e \<Rightarrow>
               st\<lparr>seeks := seeks st @ [currentTime],
                  logged := logged st @ [(frameNumber, e)]\<rparr>)
      else Some st)"

definition processVideo ::
  "(error + ('f \<Rightarrow> error + Detection list)) \<Rightarrow> 'f VideoProcessor \<Rightarrow> 'f Video \<Rightarrow> bool
     \<Rightarrow> (error + ('f VideoProcessor \<times> Run)) option" where
  \<comment> \<open>\<open>has_ctx\<close>: whether \<open>canvas.getContext('2d')\<close> gives a context\<close>
  "processVideo pipeline this video has_ctx =
     (case (if \<not> initialized this then initialize pipeline this else Inr this) of
        Inl e \<Rightarrow> Some (Inl e)
      | Inr this' \<Rightarrow>
          if \<not> has_ctx then Some (Inl NoCanvasContext)
          else map_option (\<lambda>run. Inr (this', run))
                 (processVideo_loop this' video (Finite 0) 0
                    \<lparr>results = [], seeks = [], logged = []\<rparr>))"

section \<open>Heatmap aggregator\<close>







section \<open>Stats estimator\<close>

definition ballPosition :: "DetectionResult \<Rightarrow> jsnumber \<times> jsnumber" where
  \<comment> \<open>\<open>currentPos = [(x1 + x2) / 2, (y1 + y2) / 2]\<close>\<close>
  "ballPosition b =
     (case bbox b of (x1, y1, x2, y2) \<Rightarrow>
        (js_divide (js_add (Finite x1) (Finite x2)) (Finite 2),
         js_divide (js_add (Finite y1) (Finite y2)) (Finite 2)))"

definition distance :: "jsnumber \<times> jsnumber \<Rightarrow> jsnumber \<times> jsnumber \<Rightarrow> jsnumber" where
  "distance currentPos prevPos =
     js_sqrt (js_add (js_pow_2 (js_sub (fst currentPos) (fst prevPos)))
                     (js_pow_2 (js_sub (snd currentPos) (snd prevPos))))"

text \<open>
  The body of the loop in \<open>calculateStats\<close>, on its four local variables.
\<close>

fun stats_step ::
  "nat \<times> nat \<times> nat \<times> (jsnumber \<times> jsnumber) option \<Rightarrow> TennisAnalysis
     \<Rightarrow> nat \<times> nat \<times> nat \<times> (jsnumber \<times> jsnumber) option" where
  "stats_step (totalShots, ballDetections, playerMovements, prevBallPosition) analysis =
     (case ball analysis of
        None \<Rightarrow>
          (totalShots, ballDetections, playerMovements + length (players analysis),
           prevBallPosition)
      | Some b \<Rightarrow>
          let currentPos = ballPosition b in
          ((case prevBallPosition of
              None \<Rightarrow> totalShots
            | Some prev \<Rightarrow>
                if js_less (Finite 50) (distance currentPos prev) then totalShots + 1
                else totalShots),
           ballDetections + 1,
           playerMovements + length (players analysis),
           Some currentPos))"

record VideoStats =
  shots :: nat
  winners :: int
  errors :: int
  ballDetections :: nat
  playerMovements :: nat
  averagePlayersPerFrame :: jsnumber

definition calculateStats :: "TennisAnalysis list \<Rightarrow> VideoStats" where
  "calculateStats analyses =
     (case foldl stats_step (0, 0, 0, None) analyses of
        (totalShots, nballs, nplayers, prev) \<Rightarrow>
          \<lparr>shots = totalShots,
           winners = \<lfloor>real totalShots * 0.15\<rfloor>,
           errors = \<lfloor>real totalShots * 0.12\<rfloor>,
           ballDetections = nballs,
           playerMovements = nplayers,
           averagePlayersPerFrame = js_div (real nplayers) (real (length analyses))\<rparr>)"

section \<open>Characterisations\<close>

text \<open>
  The three classes a detection can fall into, as predicates on the detector's output, and
  the single-pass selection of the best candidate of a class.
\<close>

definition person_class :: "Detection \<Rightarrow> bool" where
  "person_class d = (\<not> det_score d < 0.5 \<and> det_label d = ''person'')"

definition ball_class :: "Detection \<Rightarrow> bool" where
  "ball_class d =
     (\<not> det_score d < 0.5 \<and> det_label d \<noteq> ''person''
      \<and> (det_label d = ''sports ball'' \<or> isBallLike (to_result d)))"

definition court_class :: "Detection \<Rightarrow> bool" where
  "court_class d =
     (\<not> det_score d < 0.5 \<and> det_label d \<noteq> ''person''
      \<and> \<not> (det_label d = ''sports ball'' \<or> isBallLike (to_result d))
      \<and> isCourtLike (to_result d))"

definition select :: "DetectionResult list \<Rightarrow> DetectionResult option" where
  "select cs = foldl keep_best None cs"







text \<open>
  The ball positions, as \<open>calculateStats\<close> computes them, of the frames that have a
  ball, in order, and the number of consecutive pairs of positions whose computed distance
  is greater than 50.
\<close>

fun ball_positions :: "TennisAnalysis list \<Rightarrow> (jsnumber \<times> jsnumber) list" where
  "ball_positions [] = []"
| "ball_positions (a # analyses) =
     (case ball a of
        None \<Rightarrow> ball_positions analyses
      | Some b \<Rightarrow> ballPosition b # ball_positions analyses)"

fun long_moves :: "(jsnumber \<times> jsnumber) list \<Rightarrow> nat" where
  "long_moves (p # q # ps) =
     (if js_less (Finite 50) (distance q p) then 1 else 0) + long_moves (q # ps)"
| "long_moves ps = 0"

text \<open>
  The sample times: \<open>t\<^sub>0 = 0\<close>, and each next one is the sum, in binary64, of the previous
  one and the product \<open>(1 / 30) * 5\<close>, in binary64. The outcome of \<open>processFrame\<close> on the
  \<open>i\<close>-th sample, and the analyses and the logged errors these outcomes give.
\<close>

fun sample_time :: "nat \<Rightarrow> jsnumber" where
  "sample_time 0 = Finite 0"
| "sample_time (Suc i) =
     js_add (sample_time i) (js_mul (js_divide (Finite 1) (Finite 30)) (Finite 5))"

definition attempt :: "'f VideoProcessor \<Rightarrow> 'f Video \<Rightarrow> nat \<Rightarrow> error + TennisAnalysis" where
  "attempt this video i = processFrame this (frame_at video (sample_time i)) i (sample_time i)"

definition successes :: "'f VideoProcessor \<Rightarrow> 'f Video \<Rightarrow> nat list \<Rightarrow> TennisAnalysis list" where
  "successes this video is =
     concat (map (\<lambda>i. case attempt this video i of Inr a \<Rightarrow> [a] | Inl e \<Rightarrow> []) is)"

definition failures :: "'f VideoProcessor \<Rightarrow> 'f Video \<Rightarrow> nat list \<Rightarrow> (nat \<times> error) list" where
  "failures this video is =
     concat (map (\<lambda>i. case attempt this video i of Inr a \<Rightarrow> [] | Inl e \<Rightarrow> [(i, e)]) is)"

section \<open>Sample inputs\<close>

definition detection :: "real \<times> real \<times> real \<times> real \<Rightarrow> real \<Rightarrow> string \<Rightarrow> Detection" where
  "detection b s l =
     (case b of (x1, y1, x2, y2) \<Rightarrow>
        \<lparr>box = \<lparr>xmin = x1, ymin = y1, xmax = x2, ymax = y2\<rparr>, det_score = s, det_label = l\<rparr>)"

definition scenario_F :: "Detection list" where
  "scenario_F =
     [detection (0, 0, 100, 300) 0.9 ''person'',
      detection (200, 0, 300, 300) 0.6 ''person'',
      detection (400, 0, 500, 300) 0.95 ''person'']"

definition ball_A :: Detection where
  "ball_A = detection (0, 0, 10, 10) 0.8 ''sports ball''"

definition ball_B :: Detection where
  "ball_B = detection (40, 40, 50, 50) 0.8 ''frisbee''"

definition ball_C :: Detection where
  "ball_C = detection (70, 70, 80, 80) 0.9 ''sports ball''"

definition ready :: "Detection list \<Rightarrow> unit VideoProcessor" where
  "ready ds = \<lparr>objectDetector = Some (\<lambda>canvas. Inr ds), initialized = True\<rparr>"


definition ball_at :: "real \<times> real \<times> real \<times> real \<Rightarrow> DetectionResult" where
  "ball_at b = \<lparr>bbox = b, score = 0.8, label = ''sports ball''\<rparr>"


definition ball_frame :: "nat \<Rightarrow> real \<times> real \<Rightarrow> TennisAnalysis" where
  "ball_frame n c =
     \<lparr>frame = n, timestamp = Finite (real n / 4), players = [],
      ball = Some \<lparr>bbox = (fst c - 5, snd c - 5, fst c + 5, snd c + 5), score = 0.9,
                   label = ''sports ball''\<rparr>,
      court = None\<rparr>"

definition empty_frame :: "nat \<Rightarrow> TennisAnalysis" where
  "empty_frame n =
     \<lparr>frame = n, timestamp = Finite (real n / 4), players = [], ball = None, court = None\<rparr>"

definition near_miss :: "TennisAnalysis list" where
  \<comment> \<open>two ball frames with computed positions \<open>(0, 0)\<close> and \<open>(50, 2\<^sup>-\<^sup>2\<^sup>3)\<close>\<close>
  "near_miss =
     [\<lparr>frame = 0, timestamp = Finite 0, players = [],
       ball = Some (ball_at (- 1, - 1, 1, 1)), court = None\<rparr>,
      \<lparr>frame = 1, timestamp = Finite (1 / 4), players = [],
       ball = Some (ball_at (49, 0, 51, 1 / 2 ^ 22)), court = None\<rparr>]"

definition flaky :: "jsnumber \<Rightarrow> error + Detection list" where
  "flaky canvas = (if canvas = Finite 0 then Inl (Thrown ''detector failed'') else Inr [])"

definition flaky_processor :: "jsnumber VideoProcessor" where
  "flaky_processor = \<lparr>objectDetector = Some flaky, initialized = True\<rparr>"

definition short_video :: "jsnumber Video" where
  "short_video = \<lparr>duration = Finite (1 / 4), frame_at = id\<rparr>"

definition silent :: "unit VideoProcessor" where
  "silent = \<lparr>objectDetector = Some (\<lambda>canvas. Inr []), initialized = True\<rparr>"

definition blank_video :: "jsnumber \<Rightarrow> unit Video" where
  "blank_video D = \<lparr>duration = D, frame_at = (\<lambda>t. ())\<rparr>"

section \<open>Evaluating binary64 arithmetic\<close>

text \<open>
  The exponent search unfolded on numerals, and the equations by which rounding is
  computed on concrete numbers.
\<close>

lemma halvings_numeral:
  "halvings (numeral k) y = (if y < 2 then 0 else 1 + halvings (pred_numeral k) (y / 2))"
  by (simp add: numeral_eq_Suc)

lemma doublings_numeral:
  "doublings (numeral k) y = (if 1 \<le> y then 0 else doublings (pred_numeral k) (y * 2) - 1)"
  by (simp add: numeral_eq_Suc)

lemmas fl_eval =
  fl_def exponent_def halvings_numeral doublings_numeral pow2_def round_even_def Let_def
  js_div_def js_sub_def js_pow_2_def

lemma sqrt_values: "sqrt 100 = 10" "sqrt 2500 = 50" "sqrt 3600 = 60" "sqrt 10000 = 100"
  using real_sqrt_abs [of 10] real_sqrt_abs [of 50] real_sqrt_abs [of 60] real_sqrt_abs [of 100]
  by simp_all

section \<open>Properties of the stats estimator\<close>

lemma stats_step_mono: "fst st \<le> fst (stats_step st a)"
  by (cases st) (simp split: option.splits add: Let_def)

lemma stats_foldl_mono: "fst st \<le> fst (foldl stats_step st as)"
proof (induction as arbitrary: st)
  case Nil
  show ?case by simp
next
  case (Cons a as)
  have "fst st \<le> fst (stats_step st a)"
    by (rule stats_step_mono)
  also have "\<dots> \<le> fst (foldl stats_step (stats_step st a) as)"
    by (rule Cons.IH)
  finally show ?case by simp
qed

lemma shots_eq: "shots (calculateStats as) = fst (foldl stats_step (0, 0, 0, None) as)"
  by (simp add: calculateStats_def split: prod.splits)

text \<open>
  C2, as the code has it. On the empty sequence \<open>calculateStats\<close> returns zero shots,
  winners and errors, and no ball or player detections; the average number of players per
  frame is the quotient \<open>0 / 0\<close>, which \<open>calculateStats\<close> computes without a guard:
  it is \<open>NaN\<close>, not zero.
\<close>

theorem calculateStats_empty:
  "calculateStats [] =
     \<lparr>shots = 0, winners = 0, errors = 0, ballDetections = 0, playerMovements = 0,
      averagePlayersPerFrame = NaN\<rparr>"
  by (simp add: calculateStats_def js_div_def)

text \<open>
  C2, as stated, fails: the average reported for the empty sequence is not the number 0.
\<close>

theorem calculateStats_empty_average_not_zero:
  "averagePlayersPerFrame (calculateStats []) \<noteq> Finite 0"
  by (simp add: calculateStats_def js_div_def)

text \<open>
  C7. For every analysis sequence the winner count is the floor of 0.15 times the shot
  count of the same result and the error count is the floor of 0.12 times it: both are
  functions of the shot count alone.
\<close>

theorem calculateStats_winners_errors:
  "winners (calculateStats analyses) = \<lfloor>real (shots (calculateStats analyses)) * 0.15\<rfloor>
   \<and> errors (calculateStats analyses) = \<lfloor>real (shots (calculateStats analyses)) * 0.12\<rfloor>"
  by (simp add: calculateStats_def split: prod.splits)

text \<open>
  C8. Appending any frames, with or without a ball, to an analysis sequence never lowers
  the shot count.
\<close>

theorem calculateStats_shots_append_mono:
  "shots (calculateStats analyses) \<le> shots (calculateStats (analyses @ appended))"
  by (simp add: shots_eq stats_foldl_mono)

section \<open>Properties of the frame classifier\<close>

lemma classify_step_foldl:
  "foldl classify_step (ps, b, c) dets =
     (ps @ map to_result (filter person_class dets),
      foldl keep_best b (map to_result (filter ball_class dets)),
      foldl keep_best c (map to_result (filter court_class dets)))"
proof (induction dets arbitrary: ps b c)
  case Nil
  show ?case by simp
next
  case (Cons d dets)
  show ?case
    by (simp add: Cons.IH person_class_def ball_class_def court_class_def Let_def)
qed

lemma classify_eq:
  "classify dets =
     (map to_result (filter person_class dets),
      select (map to_result (filter ball_class dets)),
      select (map to_result (filter court_class dets)))"
  by (simp add: classify_def select_def classify_step_foldl)

text \<open>
  C5. Whatever list of detections the detector returns for a frame, the players of the
  resulting analysis are at most two, and they are the first two (or fewer, if there are
  fewer) detections labelled \<open>person\<close> whose score is not below 0.5, in the order
  the detector gave them; scores play no part in which two are kept. The witness is the
  frame with three persons of scores 0.9, 0.6 and 0.95: the players are those of 0.9 and
  0.6.
\<close>

theorem processFrame_players:
  assumes "initialized this" and "objectDetector this = Some detect"
    and "detect canvas = Inr detections"
  shows "\<exists>a. processFrame this canvas frameNumber ts = Inr a
           \<and> players a = take 2 (map to_result (filter person_class detections))
           \<and> length (players a) \<le> 2"
  using assms by (simp add: processFrame_def classify_eq)

theorem processFrame_players_witness:
  "\<exists>a. processFrame (ready scenario_F) () 0 (Finite 0) = Inr a \<and> map score (players a) = [0.9, 0.6]"
  using processFrame_players [of "ready scenario_F" "\<lambda>canvas. Inr scenario_F" "()" scenario_F 0 "Finite 0"]
  by (auto simp: ready_def scenario_F_def detection_def person_class_def to_result_def)

lemma select_snoc: "select (cs @ [r]) = keep_best (select cs) r"
  by (simp add: select_def)

lemma select_first_max:
  "(select cs = None \<longleftrightarrow> cs = []) \<and>
   (\<forall>d. select cs = Some d \<longrightarrow>
      (\<exists>i<length cs. cs ! i = d \<and> (\<forall>j<length cs. score (cs ! j) \<le> score d)
          \<and> (\<forall>j<i. score (cs ! j) < score d)))"
proof (induction cs rule: rev_induct)
  case Nil
  show ?case by (simp add: select_def)
next
  case (snoc r cs)
  show ?case
  proof (cases "select cs")
    case None
    with snoc have "cs = []" by simp
    then show ?thesis by (simp add: select_def keep_best_def)
  next
    case (Some cur)
    with snoc obtain i where i: "i < length cs" "cs ! i = cur"
      "\<forall>j<length cs. score (cs ! j) \<le> score cur" "\<forall>j<i. score (cs ! j) < score cur"
      by auto
    show ?thesis
    proof (cases "score cur < score r")
      case True
      then have sel: "select (cs @ [r]) = Some r"
        by (simp add: select_snoc Some keep_best_def)
      have below: "score (cs ! j) < score r" if "j < length cs" for j
        using i(3) True that by fastforce
      have "\<forall>j<length (cs @ [r]). score ((cs @ [r]) ! j) \<le> score r"
        using below by (auto simp: nth_append less_Suc_eq intro: less_imp_le)
      moreover have "\<forall>j<length cs. score ((cs @ [r]) ! j) < score r"
        using below by (simp add: nth_append)
      ultimately show ?thesis
        unfolding sel by (auto intro!: exI [of _ "length cs"])
    next
      case False
      then have sel: "select (cs @ [r]) = Some cur"
        by (simp add: select_snoc Some keep_best_def)
      have "\<forall>j<length (cs @ [r]). score ((cs @ [r]) ! j) \<le> score cur"
        using i(3) False by (auto simp: nth_append less_Suc_eq)
      moreover have "\<forall>j<i. score ((cs @ [r]) ! j) < score cur"
        using i(1,4) by (auto simp: nth_append)
      moreover have "(cs @ [r]) ! i = cur" "i < length (cs @ [r])"
        using i(1,2) by (auto simp: nth_append)
      ultimately show ?thesis
        unfolding sel by auto
    qed
  qed
qed

lemma select_keeps:
  "select cs = Some cur \<Longrightarrow> \<forall>r\<in>set rs. score r \<le> score cur \<Longrightarrow> select (cs @ rs) = Some cur"
proof (induction rs rule: rev_induct)
  case Nil
  then show ?case by simp
next
  case (snoc r rs)
  then have "select (cs @ rs) = Some cur" by simp
  moreover have "\<not> score cur < score r" using snoc.prems by auto
  ultimately show ?case
    using select_snoc [of "cs @ rs" r] by (simp add: keep_best_def)
qed

lemma select_score_Max:
  "map_option score (select cs) = (if cs = [] then None else Some (Max (score ` set cs)))"
proof (cases "select cs")
  case None
  then show ?thesis using select_first_max [of cs] by simp
next
  case (Some d)
  then have ne: "cs \<noteq> []" using select_first_max [of cs] by auto
  from Some obtain i where i: "i < length cs" "cs ! i = d"
    "\<forall>j<length cs. score (cs ! j) \<le> score d"
    using select_first_max [of cs] by blast
  have "score d \<in> score ` set cs" using i(1,2) by (metis imageI nth_mem)
  moreover have "\<forall>s\<in>score ` set cs. s \<le> score d"
    using i(3) by (auto simp: in_set_conv_nth)
  ultimately have "Max (score ` set cs) = score d"
    by (intro Max_eqI) auto
  with Some ne show ?thesis by simp
qed

lemma select_score_reorder:
  "mset cs = mset cs' \<Longrightarrow> map_option score (select cs) = map_option score (select cs')"
proof -
  assume m: "mset cs = mset cs'"
  then have "set cs = set cs'" by (rule mset_eq_setD)
  moreover from m have "cs = [] \<longleftrightarrow> cs' = []" by (metis mset_zero_iff)
  ultimately show ?thesis by (simp add: select_score_Max)
qed

text \<open>
  C6, as the code has it. The ball of a frame is the selection over the detections of the
  ball class, in detector order, and the court the selection over those of the court class.
  In that single pass a later detection replaces the current candidate exactly when its
  score is strictly greater; detections whose score is equal or lower leave the candidate
  as it is, however many follow and in whatever order. So the selected candidate is one of
  maximal score, and the first seen among those of that score. Reordering the candidates
  leaves the selected score unchanged; which detection is selected among candidates of
  equal maximal score depends on their order.
\<close>

theorem candidate_selection:
  "fst (snd (classify detections)) = select (map to_result (filter ball_class detections))
   \<and> snd (snd (classify detections)) = select (map to_result (filter court_class detections))
   \<and> select [r] = Some r
   \<and> (select cs = Some cur \<longrightarrow>
        select (cs @ [r]) = (if score cur < score r then Some r else Some cur))
   \<and> (select cs = Some cur \<and> (\<forall>r\<in>set rs. score r \<le> score cur) \<longrightarrow>
        select (cs @ rs) = Some cur)
   \<and> (select cs = Some cur \<longrightarrow>
        (\<exists>i<length cs. cs ! i = cur \<and> (\<forall>j<length cs. score (cs ! j) \<le> score cur)
            \<and> (\<forall>j<i. score (cs ! j) < score cur)))
   \<and> (mset cs = mset cs' \<longrightarrow> map_option score (select cs) = map_option score (select cs'))"
proof (intro conjI impI)
  show "fst (snd (classify detections)) = select (map to_result (filter ball_class detections))"
    by (simp add: classify_eq)
  show "snd (snd (classify detections)) = select (map to_result (filter court_class detections))"
    by (simp add: classify_eq)
  show "select [r] = Some r"
    by (simp add: select_def keep_best_def)
  show "select (cs @ [r]) = (if score cur < score r then Some r else Some cur)"
    if "select cs = Some cur"
    using that by (simp add: select_snoc keep_best_def)
  show "select (cs @ rs) = Some cur"
    if "select cs = Some cur \<and> (\<forall>r\<in>set rs. score r \<le> score cur)"
    using that select_keeps by blast
  show "\<exists>i<length cs. cs ! i = cur \<and> (\<forall>j<length cs. score (cs ! j) \<le> score cur)
            \<and> (\<forall>j<i. score (cs ! j) < score cur)"
    if "select cs = Some cur"
    using that select_first_max [of cs] by blast
  show "map_option score (select cs) = map_option score (select cs')"
    if "mset cs = mset cs'"
    using that by (rule select_score_reorder)
qed

theorem candidate_selection_witness:
  "fst (snd (classify [ball_A, ball_B, ball_C])) = Some (to_result ball_C)
   \<and> select [to_result ball_A, to_result ball_B] = Some (to_result ball_A)
   \<and> select ([to_result ball_A, to_result ball_B] @ [to_result ball_C]) = Some (to_result ball_C)
   \<and> select ([to_result ball_A, to_result ball_B] @ [to_result ball_B]) = Some (to_result ball_A)
   \<and> map_option score (select [to_result ball_B, to_result ball_A]) = Some 0.8"
proof -
  have sel: "select [to_result ball_A, to_result ball_B] = Some (to_result ball_A)"
    by (simp add: select_def keep_best_def to_result_def ball_A_def ball_B_def detection_def)
  have sc: "score (to_result ball_A) = 0.8" "score (to_result ball_B) = 0.8"
    "score (to_result ball_C) = 0.9"
    by (simp_all add: to_result_def ball_A_def ball_B_def ball_C_def detection_def)
  have cls: "filter ball_class [ball_A, ball_B, ball_C] = [ball_A, ball_B, ball_C]"
    by (simp add: ball_class_def isBallLike_def to_result_def ball_A_def ball_B_def ball_C_def
        detection_def)
  note t = candidate_selection [of "[ball_A, ball_B, ball_C]" "to_result ball_C"
      "[to_result ball_A, to_result ball_B]" "to_result ball_A" "[to_result ball_B]"
      "[to_result ball_B, to_result ball_A]"]
  from t sel sc have 1: "select ([to_result ball_A, to_result ball_B] @ [to_result ball_C])
      = Some (to_result ball_C)"
    by simp
  from t sel sc have 2: "select ([to_result ball_A, to_result ball_B] @ [to_result ball_B])
      = Some (to_result ball_A)"
    by simp
  from t sel sc have 3: "map_option score (select [to_result ball_B, to_result ball_A]) = Some 0.8"
    by (simp add: add.commute)
  from t cls 1 have 4: "fst (snd (classify [ball_A, ball_B, ball_C])) = Some (to_result ball_C)"
    by simp
  from sel 1 2 3 4 show ?thesis by simp
qed

text \<open>
  C6, as stated, fails: the selection is not unchanged under reordering detections of equal
  score. Two ball candidates of score 0.8 with different boxes: whichever of them the
  detector lists first is the ball of the frame.
\<close>

theorem candidate_selection_order_dependent:
  "det_score ball_A = det_score ball_B
   \<and> to_result ball_A \<noteq> to_result ball_B
   \<and> fst (snd (classify [ball_A, ball_B])) = Some (to_result ball_A)
   \<and> fst (snd (classify [ball_B, ball_A])) = Some (to_result ball_B)"
  by (simp add: classify_eq select_def keep_best_def ball_class_def isBallLike_def to_result_def
      ball_A_def ball_B_def detection_def)

section \<open>Properties of the heatmap aggregator\<close>




























section \<open>Shot counting\<close>

lemma stats_foldl_shots:
  "fst (foldl stats_step (n, nb, np, prev) analyses)
     = n + long_moves (case prev of None \<Rightarrow> ball_positions analyses
                                 | Some p \<Rightarrow> p # ball_positions analyses)"
proof (induction analyses arbitrary: n nb np prev)
  case Nil
  show ?case by (simp split: option.splits)
next
  case (Cons a analyses)
  show ?case
    by (simp add: Cons.IH Let_def split: option.splits)
qed

lemma calculateStats_long_moves:
  "shots (calculateStats analyses) = long_moves (ball_positions analyses)"
  by (simp add: shots_eq stats_foldl_shots)

lemma ball_positions_append:
  "ball_positions (xs @ ys) = ball_positions xs @ ball_positions ys"
  by (induction xs) (simp_all split: option.splits)

lemma ball_positions_gap: "\<forall>n\<in>set gap. ball n = None \<Longrightarrow> ball_positions gap = []"
  by (induction gap) simp_all

lemma long_moves_snoc:
  "long_moves (ps @ [p, q])
     = long_moves (ps @ [p]) + (if js_less (Finite 50) (distance q p) then 1 else 0)"
  by (induction ps rule: long_moves.induct) simp_all

text \<open>
  C4, as the code has it. The shot count of \<open>calculateStats\<close> is the number of
  consecutive pairs, in the sequence of ball positions of the frames that have a ball,
  whose distance as the code computes it, in binary64 arithmetic from the computed centres,
  is strictly greater than 50. Frames without a ball change nothing: appended to a sequence
  they leave the count as it is, and between two ball frames they do not stand in the way
  of the comparison. The first ball frame adds no shot, since no previous position is set;
  a ball frame after another one adds exactly one shot if the computed distance between the
  two positions exceeds 50 and none otherwise. The witness has centres \<open>(0, 0)\<close> and
  \<open>(100, 0)\<close> adding one shot, \<open>(0, 0)\<close> and \<open>(10, 0)\<close> adding none,
  \<open>(0, 0)\<close> and \<open>(50, 0)\<close>, at distance exactly 50, adding none, and \<open>(0, 0)\<close> and
  \<open>(0, 60)\<close> with a frame without a ball in between adding one.
\<close>

theorem calculateStats_shots:
  "shots (calculateStats analyses) = long_moves (ball_positions analyses)
   \<and> ((\<forall>n\<in>set gap. ball n = None) \<longrightarrow>
        shots (calculateStats (analyses @ gap)) = shots (calculateStats analyses))
   \<and> ((\<forall>n\<in>set analyses. ball n = None) \<and> ball a1 = Some b1 \<longrightarrow>
        shots (calculateStats (analyses @ [a1])) = 0)
   \<and> (ball a1 = Some b1 \<and> (\<forall>n\<in>set gap. ball n = None) \<and> ball a2 = Some b2 \<longrightarrow>
        shots (calculateStats (analyses @ [a1] @ gap @ [a2]))
          = shots (calculateStats (analyses @ [a1]))
            + (if js_less (Finite 50) (distance (ballPosition b2) (ballPosition b1))
               then 1 else 0))"
proof (intro conjI impI)
  show "shots (calculateStats analyses) = long_moves (ball_positions analyses)"
    by (rule calculateStats_long_moves)
  show "shots (calculateStats (analyses @ gap)) = shots (calculateStats analyses)"
    if "\<forall>n\<in>set gap. ball n = None"
    using that by (simp add: calculateStats_long_moves ball_positions_append ball_positions_gap)
  show "shots (calculateStats (analyses @ [a1])) = 0"
    if "(\<forall>n\<in>set analyses. ball n = None) \<and> ball a1 = Some b1"
    using that by (simp add: calculateStats_long_moves ball_positions_append ball_positions_gap)
  show "shots (calculateStats (analyses @ [a1] @ gap @ [a2]))
          = shots (calculateStats (analyses @ [a1]))
            + (if js_less (Finite 50) (distance (ballPosition b2) (ballPosition b1))
               then 1 else 0)"
    if h: "ball a1 = Some b1 \<and> (\<forall>n\<in>set gap. ball n = None) \<and> ball a2 = Some b2"
  proof -
    from h have "ball_positions (analyses @ [a1] @ gap @ [a2])
                 = ball_positions analyses @ [ballPosition b1, ballPosition b2]"
      by (simp add: ball_positions_append ball_positions_gap)
    moreover from h
    have "ball_positions (analyses @ [a1]) = ball_positions analyses @ [ballPosition b1]"
      by (simp add: ball_positions_append)
    ultimately show ?thesis
      by (simp only: calculateStats_long_moves long_moves_snoc)
  qed
qed

lemma ball_frame_positions:
  "ballPosition \<lparr>bbox = (- 5, - 5, 5, 5), score = 9 / 10, label = ''sports ball''\<rparr>
     = (Finite 0, Finite 0)"
  "ballPosition \<lparr>bbox = (95, - 5, 105, 5), score = 9 / 10, label = ''sports ball''\<rparr>
     = (Finite 100, Finite 0)"
  "ballPosition \<lparr>bbox = (5, - 5, 15, 5), score = 9 / 10, label = ''sports ball''\<rparr>
     = (Finite 10, Finite 0)"
  "ballPosition \<lparr>bbox = (45, - 5, 55, 5), score = 9 / 10, label = ''sports ball''\<rparr>
     = (Finite 50, Finite 0)"
  "ballPosition \<lparr>bbox = (- 5, 55, 5, 65), score = 9 / 10, label = ''sports ball''\<rparr>
     = (Finite 0, Finite 60)"
  by (simp_all add: ballPosition_def fl_eval)

lemma sample_distances:
  "distance (Finite 100, Finite 0) (Finite 0, Finite 0) = Finite 100"
  "distance (Finite 10, Finite 0) (Finite 0, Finite 0) = Finite 10"
  "distance (Finite 50, Finite 0) (Finite 0, Finite 0) = Finite 50"
  "distance (Finite 0, Finite 60) (Finite 0, Finite 0) = Finite 60"
  by (simp_all add: distance_def fl_eval sqrt_values)

theorem calculateStats_shots_witness:
  "shots (calculateStats ([] @ [ball_frame 0 (0, 0)] @ [] @ [ball_frame 1 (100, 0)])) = 1
   \<and> shots (calculateStats ([] @ [ball_frame 0 (0, 0)] @ [] @ [ball_frame 1 (10, 0)])) = 0
   \<and> shots (calculateStats ([] @ [ball_frame 0 (0, 0)] @ [] @ [ball_frame 1 (50, 0)])) = 0
   \<and> shots (calculateStats ([empty_frame 0] @ [ball_frame 1 (0, 0)] @ [empty_frame 2]
                              @ [ball_frame 3 (0, 60)])) = 1"
proof -
  let ?b = "\<lambda>c. \<lparr>bbox = (fst c - 5, snd c - 5, fst c + 5, snd c + 5), score = 0.9,
                   label = ''sports ball''\<rparr>"
  have b: "ball (ball_frame n c) = Some (?b c)" for n c
    by (simp add: ball_frame_def)
  have e: "ball (empty_frame n) = None" for n
    by (simp add: empty_frame_def)
  have first: "shots (calculateStats ([] @ [ball_frame 0 (0, 0)])) = 0"
    using calculateStats_shots [of "[]" "[]" "ball_frame 0 (0, 0)" "?b (0, 0)"] b
    by simp
  have first': "shots (calculateStats ([empty_frame 0] @ [ball_frame 1 (0, 0)])) = 0"
    using calculateStats_shots [of "[empty_frame 0]" "[]" "ball_frame 1 (0, 0)" "?b (0, 0)"] b e
    by simp
  have "shots (calculateStats ([] @ [ball_frame 0 (0, 0)] @ [] @ [ball_frame 1 (100, 0)])) = 1"
    using calculateStats_shots [of "[]" "[]" "ball_frame 0 (0, 0)" "?b (0, 0)"
        "ball_frame 1 (100, 0)" "?b (100, 0)"] b first
    by (simp add: ball_frame_positions sample_distances)
  moreover
  have "shots (calculateStats ([] @ [ball_frame 0 (0, 0)] @ [] @ [ball_frame 1 (10, 0)])) = 0"
    using calculateStats_shots [of "[]" "[]" "ball_frame 0 (0, 0)" "?b (0, 0)"
        "ball_frame 1 (10, 0)" "?b (10, 0)"] b first
    by (simp add: ball_frame_positions sample_distances)
  moreover
  have "shots (calculateStats ([] @ [ball_frame 0 (0, 0)] @ [] @ [ball_frame 1 (50, 0)])) = 0"
    using calculateStats_shots [of "[]" "[]" "ball_frame 0 (0, 0)" "?b (0, 0)"
        "ball_frame 1 (50, 0)" "?b (50, 0)"] b first
    by (simp add: ball_frame_positions sample_distances)
  moreover
  have "shots (calculateStats ([empty_frame 0] @ [ball_frame 1 (0, 0)] @ [empty_frame 2]
                              @ [ball_frame 3 (0, 60)])) = 1"
    using calculateStats_shots [of "[empty_frame 0]" "[empty_frame 2]" "ball_frame 1 (0, 0)"
        "?b (0, 0)" "ball_frame 3 (0, 60)" "?b (0, 60)"] b e first'
    by (simp add: ball_frame_positions sample_distances)
  ultimately show ?thesis by simp
qed

lemma near_miss_positions:
  "ball_positions near_miss = [(Finite 0, Finite 0), (Finite 50, Finite (1 / 2 ^ 23))]"
  by (simp add: near_miss_def ball_at_def ballPosition_def fl_eval)

lemma near_miss_distance:
  "distance (Finite 50, Finite (1 / 2 ^ 23)) (Finite 0, Finite 0) = Finite 50"
  by (simp add: distance_def fl_eval sqrt_values)

text \<open>
  C4, as stated, fails: the test is on the rounded distance, not on the Euclidean distance
  of the centres. Two ball frames with computed centres \<open>(0, 0)\<close> and
  \<open>(50, 2\<^sup>-\<^sup>2\<^sup>3)\<close> are more than 50 apart, but the sum of the squares rounds to 2500,
  its root is 50, and no shot is counted.
\<close>

theorem calculateStats_near_miss:
  "ball_positions near_miss = [(Finite 0, Finite 0), (Finite 50, Finite (1 / 2 ^ 23))]
   \<and> 50 < sqrt ((50 - 0)\<^sup>2 + (1 / 2 ^ 23 - 0)\<^sup>2)
   \<and> shots (calculateStats near_miss) = 0"
proof -
  have "sqrt 2500 < sqrt ((50 - 0)\<^sup>2 + (1 / 2 ^ 23 - 0)\<^sup>2)"
    by (simp only: real_sqrt_less_iff) simp
  then have "50 < sqrt ((50 - 0)\<^sup>2 + (1 / 2 ^ 23 - 0)\<^sup>2)"
    by (simp only: sqrt_values)
  moreover have "shots (calculateStats near_miss) = 0"
    by (simp only: calculateStats_long_moves near_miss_positions long_moves.simps
        near_miss_distance js_less.simps) simp
  ultimately show ?thesis
    using near_miss_positions by simp
qed

section \<open>Properties of the pipeline orchestrator\<close>

lemma processVideo_loop_stop:
  "\<not> js_less currentTime (duration video) \<Longrightarrow>
     processVideo_loop this video currentTime frameNumber st = Some st"
  by (subst processVideo_loop.simps) (simp only: if_False)

lemma processVideo_loop_step:
  "js_less currentTime (duration video) \<Longrightarrow>
     processVideo_loop this video currentTime frameNumber st =
       processVideo_loop this video
         (js_add currentTime (js_mul frameInterval (Finite 5))) (frameNumber + 1)
         (case processFrame this (frame_at video currentTime) frameNumber currentTime of
            Inr analysis \<Rightarrow>
              st\<lparr>results := results st @ [analysis], seeks := seeks st @ [currentTime]\<rparr>
          | Inl e \<Rightarrow>
              st\<lparr>seeks := seeks st @ [currentTime],
                 logged := logged st @ [(frameNumber, e)]\<rparr>)"
  by (subst processVideo_loop.simps) (simp only: if_True)

lemma sample_time_next:
  "js_add (sample_time k) (js_mul frameInterval (Finite 5)) = sample_time (Suc k)"
  by (simp add: frameInterval_def fps_def)

lemma successes_Cons:
  "successes this video (k # ks) =
     (case attempt this video k of Inr a \<Rightarrow> [a] | Inl e \<Rightarrow> []) @ successes this video ks"
  by (simp add: successes_def)

lemma failures_Cons:
  "failures this video (k # ks) =
     (case attempt this video k of Inr a \<Rightarrow> [] | Inl e \<Rightarrow> [(k, e)]) @ failures this video ks"
  by (simp add: failures_def)

lemma processVideo_loop_run:
  assumes "\<forall>i<n. js_less (sample_time (k + i)) (duration video)"
    and "\<not> js_less (sample_time (k + n)) (duration video)"
  shows "processVideo_loop this video (sample_time k) k st =
     Some (st\<lparr>results := results st @ successes this video [k..<k + n],
              seeks := seeks st @ map sample_time [k..<k + n],
              logged := logged st @ failures this video [k..<k + n]\<rparr>)"
  using assms
proof (induction n arbitrary: k st)
  case 0
  then have stop: "\<not> js_less (sample_time k) (duration video)"
    by simp
  show ?case
    unfolding processVideo_loop_stop [OF stop]
    by (simp add: successes_def failures_def)
next
  case (Suc n)
  from Suc.prems(1) have t: "js_less (sample_time k) (duration video)"
    by (metis add.right_neutral zero_less_Suc)
  have below: "\<forall>i<n. js_less (sample_time (Suc k + i)) (duration video)"
  proof (intro allI impI)
    fix i
    assume "i < n"
    then have "Suc i < Suc n" by simp
    with Suc.prems(1) have "js_less (sample_time (k + Suc i)) (duration video)"
      by blast
    then show "js_less (sample_time (Suc k + i)) (duration video)"
      by simp
  qed
  from Suc.prems(2) have reach: "\<not> js_less (sample_time (Suc k + n)) (duration video)"
    by simp
  note IH = Suc.IH [OF below reach]
  have up: "[k..<k + Suc n] = k # [Suc k..<Suc k + n]"
    by (simp add: upt_conv_Cons)
  have step: "processVideo_loop this video (sample_time k) k st =
       processVideo_loop this video (sample_time (Suc k)) (Suc k)
         (case processFrame this (frame_at video (sample_time k)) k (sample_time k) of
            Inr analysis \<Rightarrow>
              st\<lparr>results := results st @ [analysis], seeks := seeks st @ [sample_time k]\<rparr>
          | Inl e \<Rightarrow>
              st\<lparr>seeks := seeks st @ [sample_time k],
                 logged := logged st @ [(k, e)]\<rparr>)"
    using processVideo_loop_step [OF t, of this k st]
    by (simp only: sample_time_next Suc_eq_plus1 [symmetric])
  show ?case
  proof (cases "processFrame this (frame_at video (sample_time k)) k (sample_time k)")
    case (Inl e)
    then have a: "attempt this video k = Inl e"
      by (simp add: attempt_def)
    show ?thesis
      unfolding step Inl IH up successes_Cons failures_Cons a
      by simp
  next
    case (Inr analysis)
    then have a: "attempt this video k = Inr analysis"
      by (simp add: attempt_def)
    show ?thesis
      unfolding step Inr IH up successes_Cons failures_Cons a
      by simp
  qed
qed

lemma initialize_once:
  assumes "initialize pipeline this = Inr this'"
  shows "(if \<not> initialized this then initialize pipeline this else Inr this) = Inr this'"
proof (cases "initialized this")
  case True
  with assms show ?thesis by (simp add: initialize_def)
next
  case False
  with assms show ?thesis by simp
qed

lemma processVideo_run:
  assumes "initialize pipeline this = Inr this'" and "has_ctx"
    and "\<forall>i<n. js_less (sample_time i) (duration video)"
    and "\<not> js_less (sample_time n) (duration video)"
  shows "processVideo pipeline this video has_ctx =
     Some (Inr (this', \<lparr>results = successes this' video [0..<n],
                        seeks = map sample_time [0..<n],
                        logged = failures this' video [0..<n]\<rparr>))"
proof -
  have loop: "processVideo_loop this' video (Finite 0) 0 \<lparr>results = [], seeks = [], logged = []\<rparr> =
     Some \<lparr>results = successes this' video [0..<n],
           seeks = map sample_time [0..<n],
           logged = failures this' video [0..<n]\<rparr>"
    using processVideo_loop_run [of n 0 video this' "\<lparr>results = [], seeks = [], logged = []\<rparr>"]
      assms(3,4)
    by simp
  show ?thesis
    unfolding processVideo_def initialize_once [OF assms(1)]
    using assms(2) by (simp add: loop)
qed

lemma attempt_frame: "attempt this video i = Inr a \<Longrightarrow> frame a = i"
  by (auto simp: attempt_def processFrame_def split: if_splits option.splits sum.splits prod.splits)

lemma successes_set:
  "set (successes this video is) = {a. \<exists>i\<in>set is. attempt this video i = Inr a}"
  by (auto simp: successes_def split: sum.splits)

lemma failures_set:
  "set (failures this video is) = {(i, e). i \<in> set is \<and> attempt this video i = Inl e}"
  by (auto simp: failures_def split: sum.splits)

lemma successes_failures_length:
  "length (successes this video is) + length (failures this video is) = length is"
  by (induction "is") (simp_all add: successes_def failures_def split: sum.splits)

lemma step_value:
  "js_mul (js_divide (Finite 1) (Finite 30)) (Finite 5)
     = Finite (6004799503160661 / 36028797018963968)"
  by (simp add: fl_eval)

lemma sample_time_1:
  "sample_time (Suc 0) = Finite (6004799503160661 / 36028797018963968)"
  by (simp add: step_value fl_eval)

lemma sample_time_2:
  "sample_time (Suc (Suc 0)) = Finite (6004799503160661 / 18014398509481984)"
  unfolding sample_time.simps(2) [of "Suc 0"] sample_time_1 step_value
  by (simp add: fl_eval)

lemma sample_time_3:
  "sample_time (Suc (Suc (Suc 0))) = Finite (1 / 2)"
  unfolding sample_time.simps(2) [of "Suc (Suc 0)"] sample_time_2 step_value
  by (simp add: fl_eval)

lemma sample_time_4:
  "sample_time (Suc (Suc (Suc (Suc 0)))) = Finite (6004799503160661 / 9007199254740992)"
  unfolding sample_time.simps(2) [of "Suc (Suc (Suc 0))"] sample_time_3 step_value
  by (simp add: fl_eval)

lemma sample_time_5:
  "sample_time (Suc (Suc (Suc (Suc (Suc 0))))) = Finite (3752999689475413 / 4503599627370496)"
  unfolding sample_time.simps(2) [of "Suc (Suc (Suc (Suc 0)))"] sample_time_4 step_value
  by (simp add: fl_eval)

lemma sample_time_6:
  "sample_time (Suc (Suc (Suc (Suc (Suc (Suc 0))))))
     = Finite (9007199254740991 / 9007199254740992)"
  unfolding sample_time.simps(2) [of "Suc (Suc (Suc (Suc (Suc 0))))"] sample_time_5 step_value
  by (simp add: fl_eval)

lemma sample_time_7:
  "sample_time (Suc (Suc (Suc (Suc (Suc (Suc (Suc 0)))))))
     = Finite (2627099782632789 / 2251799813685248)"
  unfolding sample_time.simps(2) [of "Suc (Suc (Suc (Suc (Suc (Suc 0)))))"] sample_time_6 step_value
  by (simp add: fl_eval)

text \<open>
  The sample times reach every duration that is a finite number up to \<open>2\<^sup>4\<^sup>0\<close> seconds.
  Rounding moves a result by at most half a unit in its last place; below \<open>2\<^sup>4\<^sup>2\<close> that
  is far less than the step, so each sample time exceeds the previous one by at least an
  eighth of a second.
\<close>

lemma pow2_powi: "pow2 e = 2 powi e"
  by (simp add: pow2_def power_int_def inverse_eq_divide power_one_over)

lemma pow2_pos: "0 < pow2 e"
  by (simp add: pow2_powi)

lemma pow2_Suc: "pow2 (1 + e) = 2 * pow2 e"
  by (simp add: pow2_powi power_int_add)

lemma pow2_pred: "pow2 (e - 1) = pow2 e / 2"
  by (simp add: pow2_powi power_int_diff)

lemma pow2_diff_52: "pow2 (e - 52) = pow2 e / 2 ^ 52"
  by (simp add: pow2_powi power_int_diff)

lemma halvings_le: "1 \<le> y \<Longrightarrow> pow2 (halvings n y) \<le> y"
proof (induction n arbitrary: y)
  case 0
  then show ?case by (simp add: pow2_def)
next
  case (Suc n)
  show ?case
  proof (cases "y < 2")
    case True
    with Suc.prems show ?thesis by (simp add: pow2_def)
  next
    case False
    then have "1 \<le> y / 2" by simp
    then have "pow2 (halvings n (y / 2)) \<le> y / 2" by (rule Suc.IH)
    with False show ?thesis by (simp add: pow2_Suc)
  qed
qed

lemma doublings_le:
  "0 < y \<Longrightarrow> y < 1 \<Longrightarrow> 1 \<le> y * 2 ^ n \<Longrightarrow> pow2 (doublings n y) \<le> y"
proof (induction n arbitrary: y)
  case 0
  then show ?case by simp
next
  case (Suc n)
  show ?case
  proof (cases "1 \<le> y * 2")
    case True
    have "doublings n (y * 2) = 0"
      using True by (cases n) simp_all
    with Suc.prems True show ?thesis
      by (simp add: pow2_pred pow2_def)
  next
    case False
    with Suc.prems have "pow2 (doublings n (y * 2)) \<le> y * 2"
      by (intro Suc.IH) (simp_all add: mult.assoc)
    with Suc.prems show ?thesis
      by (simp add: pow2_pred)
  qed
qed

lemma exponent_le: "1 / 8 \<le> y \<Longrightarrow> pow2 (exponent y) \<le> y"
proof (cases "1 \<le> y")
  case True
  then show ?thesis by (simp only: exponent_def if_True halvings_le)
next
  case False
  assume y: "1 / 8 \<le> y"
  have "(2 :: real) ^ 3 \<le> 2 ^ 1022"
    by (rule power_increasing) simp_all
  then have "y * 2 ^ 3 \<le> y * 2 ^ 1022"
    using y by (intro mult_left_mono) simp_all
  moreover from y have "1 \<le> y * 2 ^ 3"
    by simp
  ultimately have "1 \<le> y * 2 ^ 1022"
    by (rule order_trans [rotated])
  moreover from y have "0 < y" by simp
  moreover from False have "y < 1" by simp
  ultimately have "pow2 (doublings 1022 y) \<le> y"
    by (intro doublings_le)
  with False show ?thesis
    by (simp only: exponent_def if_False)
qed

lemma round_even_near: "\<bar>of_int (round_even r) - r\<bar> \<le> 1 / 2"
  unfolding round_even_def by (auto split: if_splits)

lemma fl_bounds:
  assumes lo: "1 / 8 \<le> x" and hi: "x \<le> 2 ^ 42"
  shows "\<exists>v. fl x = Finite v \<and> x - x / 2 ^ 53 \<le> v \<and> v \<le> x + x / 2 ^ 53"
proof -
  define q where "q = pow2 (exponent \<bar>x\<bar> - 52)"
  define v where "v = of_int (round_even (x / q)) * q"
  from lo have pos: "0 < x" by simp
  then have ax: "\<bar>x\<bar> = x" by simp
  have q_pos: "0 < q"
    unfolding q_def by (rule pow2_pos)
  have "q = pow2 (exponent x) / 2 ^ 52"
    unfolding q_def ax by (rule pow2_diff_52)
  also have "\<dots> \<le> x / 2 ^ 52"
    using exponent_le [OF lo] by (simp add: divide_right_mono)
  finally have q_le: "q \<le> x / 2 ^ 52" .
  have "\<bar>of_int (round_even (x / q)) - x / q\<bar> \<le> 1 / 2"
    by (rule round_even_near)
  then have "\<bar>of_int (round_even (x / q)) - x / q\<bar> * q \<le> 1 / 2 * q"
    using q_pos by (intro mult_right_mono) simp_all
  moreover have "\<bar>of_int (round_even (x / q)) - x / q\<bar> * q = \<bar>v - x\<bar>"
  proof -
    have "(of_int (round_even (x / q)) - x / q) * q = v - x"
      using q_pos by (simp add: v_def left_diff_distrib)
    then have "\<bar>v - x\<bar> = \<bar>of_int (round_even (x / q)) - x / q\<bar> * \<bar>q\<bar>"
      by (simp only: abs_mult [symmetric])
    with q_pos show ?thesis by simp
  qed
  ultimately have near: "\<bar>v - x\<bar> \<le> q / 2"
    by simp
  have "q / 2 \<le> x / 2 ^ 53"
    using q_le by simp
  with near have err: "\<bar>v - x\<bar> \<le> x / 2 ^ 53"
    by simp
  then have b: "x - x / 2 ^ 53 \<le> v" "v \<le> x + x / 2 ^ 53"
    by linarith+
  have "x / 2 ^ 53 \<le> x"
    using pos by (simp add: divide_le_eq)
  with b pos have v_pos: "0 \<le> v" and "v \<le> 2 * x"
    by linarith+
  with hi have "v \<le> 2 * 2 ^ 42"
    by simp
  also have "\<dots> = (2 :: real) ^ 43"
    by simp
  also have "\<dots> < 2 ^ 1024"
    by (rule power_strict_increasing) simp_all
  finally have "\<not> 2 ^ 1024 \<le> \<bar>v\<bar>"
    using v_pos by simp
  then have "fl x = Finite v"
    using pos unfolding fl_def Let_def q_def [symmetric] v_def [symmetric]
    by (simp only: if_False) simp
  with b show ?thesis
    by blast
qed

lemma step_growth:
  assumes "0 \<le> t" and "t \<le> 2 ^ 41"
  shows "\<exists>v. js_add (Finite t) (js_mul (js_divide (Finite 1) (Finite 30)) (Finite 5)) = Finite v
           \<and> t + 1 / 8 \<le> v"
proof -
  define s :: real where "s = 6004799503160661 / 36028797018963968"
  have s: "1 / 8 + 1 / 2 ^ 11 \<le> s" "s \<le> 1"
    by (simp_all add: s_def)
  have sum: "js_add (Finite t) (js_mul (js_divide (Finite 1) (Finite 30)) (Finite 5)) = fl (t + s)"
    by (simp only: step_value js_add.simps s_def)
  have lo: "1 / 8 \<le> t + s"
    using assms(1) s(1) by simp
  have "(2 :: real) ^ 41 + 1 \<le> 2 ^ 42"
    by simp
  with assms(2) s(2) have hi: "t + s \<le> 2 ^ 42"
    by linarith
  from fl_bounds [OF lo hi] obtain v where v: "fl (t + s) = Finite v"
    and b: "t + s - (t + s) / 2 ^ 53 \<le> v"
    by blast
  have "(t + s) / 2 ^ 53 \<le> 2 ^ 42 / 2 ^ 53"
    using hi by (rule divide_right_mono) simp
  also have "\<dots> = (1 :: real) / 2 ^ 11"
    by simp
  finally have "(t + s) / 2 ^ 53 \<le> 1 / 2 ^ 11" .
  with b s(1) have "t + 1 / 8 \<le> v"
    by linarith
  with sum v show ?thesis
    by simp
qed

lemma sample_time_grows:
  assumes "d \<le> 2 ^ 40" and "\<forall>i<n. js_less (sample_time i) (Finite d)"
  shows "\<exists>t. sample_time n = Finite t \<and> real n / 8 \<le> t"
  using assms(2)
proof (induction n)
  case 0
  show ?case by simp
next
  case (Suc n)
  then have "\<forall>i<n. js_less (sample_time i) (Finite d)"
    by simp
  with Suc.IH obtain t where t: "sample_time n = Finite t" and low: "real n / 8 \<le> t"
    by blast
  from Suc.prems have "js_less (sample_time n) (Finite d)"
    by simp
  with t have "t < d"
    by simp
  with assms(1) have "t \<le> 2 ^ 41"
    by simp
  moreover have "0 \<le> real n / 8"
    by simp
  with low have "0 \<le> t"
    by linarith
  ultimately obtain v where
    v: "js_add (Finite t) (js_mul (js_divide (Finite 1) (Finite 30)) (Finite 5)) = Finite v"
    and g: "t + 1 / 8 \<le> v"
    using step_growth by blast
  from t v have "sample_time (Suc n) = Finite v"
    by (simp only: sample_time.simps)
  moreover from low g have "real (Suc n) / 8 \<le> v"
    by (simp add: add_divide_distrib)
  ultimately show ?case
    by blast
qed

lemma sample_times_reach:
  assumes "d \<le> 2 ^ 40"
  shows "\<exists>n. (\<forall>i<n. js_less (sample_time i) (Finite d)) \<and> \<not> js_less (sample_time n) (Finite d)"
proof -
  have "\<exists>n. \<not> js_less (sample_time n) (Finite d)"
  proof (rule ccontr)
    assume "\<not> (\<exists>n. \<not> js_less (sample_time n) (Finite d))"
    then have all: "\<forall>n. js_less (sample_time n) (Finite d)"
      by simp
    obtain n where n: "8 * d < real n"
      using reals_Archimedean2 by blast
    from all have "\<forall>i<n. js_less (sample_time i) (Finite d)"
      by simp
    from sample_time_grows [OF assms this]
    obtain t where t: "sample_time n = Finite t" and low: "real n / 8 \<le> t"
      by blast
    from all t have "t < d"
      by (metis js_less.simps(1))
    with low n show False
      by simp
  qed
  then obtain n where "\<not> js_less (sample_time n) (Finite d)"
    and "\<forall>m<n. \<not> \<not> js_less (sample_time m) (Finite d)"
    using exists_least_iff [of "\<lambda>n. \<not> js_less (sample_time n) (Finite d)"]
    by blast
  then show ?thesis
    by auto
qed

text \<open>
  C9, as the code has it. When the processor can be initialised and the canvas has a
  context: if 0 is not below the duration (the duration is 0, negative or \<open>NaN\<close>),
  \<open>processVideo\<close> returns at once, having sought no time, with an empty result
  sequence. If \<open>n\<close> is the first index whose sample time is not below the duration,
  \<open>processVideo\<close> returns after seeking to the \<open>n\<close> sample times before it: the first
  is 0 and each next one is the binary64 sum of the previous one and the binary64 product
  \<open>(1 / 30) * 5\<close>, so the times are those of the arithmetic sequence with step
  \<open>5 / 30\<close> only up to rounding; each sample gives either an analysis or a logged error.
  For every duration that is a finite number up to \<open>2\<^sup>4\<^sup>0\<close> seconds there is such an
  index, and \<open>processVideo\<close> returns.
\<close>

theorem processVideo_sample_times:
  assumes "initialize pipeline this = Inr this'" and "has_ctx"
  shows "(\<not> js_less (Finite 0) (duration video) \<longrightarrow>
            processVideo pipeline this video has_ctx
              = Some (Inr (this', \<lparr>results = [], seeks = [], logged = []\<rparr>)))
     \<and> ((\<forall>i<n. js_less (sample_time i) (duration video))
          \<and> \<not> js_less (sample_time n) (duration video) \<longrightarrow>
         (\<exists>run. processVideo pipeline this video has_ctx = Some (Inr (this', run))
            \<and> seeks run = map sample_time [0..<n]
            \<and> (seeks run \<noteq> [] \<longrightarrow> seeks run ! 0 = Finite 0)
            \<and> (\<forall>i. Suc i < length (seeks run) \<longrightarrow>
                  seeks run ! Suc i
                    = js_add (seeks run ! i)
                        (js_mul (js_divide (Finite 1) (Finite 30)) (Finite 5)))
            \<and> (\<forall>t\<in>set (seeks run). js_less t (duration video))
            \<and> length (results run) + length (logged run) = length (seeks run)))
     \<and> (duration video = Finite d \<and> d \<le> 2 ^ 40 \<longrightarrow>
         (\<exists>m run. (\<forall>i<m. js_less (sample_time i) (duration video))
            \<and> \<not> js_less (sample_time m) (duration video)
            \<and> processVideo pipeline this video has_ctx = Some (Inr (this', run))
            \<and> seeks run = map sample_time [0..<m]))"
proof (intro conjI impI)
  assume "\<not> js_less (Finite 0) (duration video)"
  then have "\<forall>i<0. js_less (sample_time i) (duration video)"
    and "\<not> js_less (sample_time 0) (duration video)"
    by simp_all
  from processVideo_run [OF assms this]
  show "processVideo pipeline this video has_ctx
          = Some (Inr (this', \<lparr>results = [], seeks = [], logged = []\<rparr>))"
    by (simp add: successes_def failures_def)
next
  assume h: "(\<forall>i<n. js_less (sample_time i) (duration video))
          \<and> \<not> js_less (sample_time n) (duration video)"
  let ?run = "\<lparr>results = successes this' video [0..<n],
               seeks = map sample_time [0..<n],
               logged = failures this' video [0..<n]\<rparr>"
  have run: "processVideo pipeline this video has_ctx = Some (Inr (this', ?run))"
    using assms h by (intro processVideo_run) simp_all
  have first: "seeks ?run \<noteq> [] \<longrightarrow> seeks ?run ! 0 = Finite 0"
    by simp
  have next_one: "\<forall>i. Suc i < length (seeks ?run) \<longrightarrow>
                  seeks ?run ! Suc i
                    = js_add (seeks ?run ! i)
                        (js_mul (js_divide (Finite 1) (Finite 30)) (Finite 5))"
    by simp
  have below: "\<forall>t\<in>set (seeks ?run). js_less t (duration video)"
    using h by auto
  have count: "length (results ?run) + length (logged ?run) = length (seeks ?run)"
    by (simp add: successes_failures_length)
  have closed: "seeks ?run = map sample_time [0..<n]"
    by simp
  from run closed first next_one below count
  show "\<exists>run. processVideo pipeline this video has_ctx = Some (Inr (this', run))
            \<and> seeks run = map sample_time [0..<n]
            \<and> (seeks run \<noteq> [] \<longrightarrow> seeks run ! 0 = Finite 0)
            \<and> (\<forall>i. Suc i < length (seeks run) \<longrightarrow>
                  seeks run ! Suc i
                    = js_add (seeks run ! i)
                        (js_mul (js_divide (Finite 1) (Finite 30)) (Finite 5)))
            \<and> (\<forall>t\<in>set (seeks run). js_less t (duration video))
            \<and> length (results run) + length (logged run) = length (seeks run)"
    by blast
next
  assume fin: "duration video = Finite d \<and> d \<le> 2 ^ 40"
  then obtain m where below: "\<forall>i<m. js_less (sample_time i) (duration video)"
    and reach: "\<not> js_less (sample_time m) (duration video)"
    using sample_times_reach [of d] by auto
  from processVideo_run [OF assms below reach] below reach
  show "\<exists>m run. (\<forall>i<m. js_less (sample_time i) (duration video))
            \<and> \<not> js_less (sample_time m) (duration video)
            \<and> processVideo pipeline this video has_ctx = Some (Inr (this', run))
            \<and> seeks run = map sample_time [0..<m]"
    by (intro exI [of _ m]) simp
qed

lemma silent_init: "initialize (Inl (Thrown ''not loaded'')) silent = Inr silent"
  by (simp add: initialize_def silent_def)

lemma upt_3: "[0..<Suc (Suc (Suc 0))] = [0, Suc 0, Suc (Suc 0)]"
  by (simp add: upt_rec)

theorem processVideo_sample_times_witness:
  "(\<exists>run. processVideo (Inl (Thrown ''not loaded'')) silent (blank_video (Finite (1 / 2))) True
             = Some (Inr (silent, run))
      \<and> seeks run = [Finite 0, Finite (6004799503160661 / 36028797018963968),
                     Finite (6004799503160661 / 18014398509481984)]
      \<and> list_all (\<lambda>t. js_less t (Finite (1 / 2))) (seeks run)
      \<and> length (results run) + length (logged run) = 3)
   \<and> processVideo (Inl (Thrown ''not loaded'')) silent (blank_video (Finite 0)) True
       = Some (Inr (silent, \<lparr>results = [], seeks = [], logged = []\<rparr>))
   \<and> processVideo (Inl (Thrown ''not loaded'')) silent (blank_video NaN) True
       = Some (Inr (silent, \<lparr>results = [], seeks = [], logged = []\<rparr>))
   \<and> (\<exists>m run. processVideo (Inl (Thrown ''not loaded'')) silent (blank_video (Finite 3600)) True
                 = Some (Inr (silent, run))
          \<and> length (seeks run) = m)"
proof -
  have d: "duration (blank_video D) = D" for D
    by (simp add: blank_video_def)
  have below: "\<forall>i<Suc (Suc (Suc 0)). js_less (sample_time i) (Finite (1 / 2))"
    by (simp add: All_less_Suc sample_time_1 sample_time_2 del: sample_time.simps(2))
  have reach: "\<not> js_less (sample_time (Suc (Suc (Suc 0)))) (Finite (1 / 2))"
    by (simp add: sample_time_3 del: sample_time.simps(2))
  note half = processVideo_sample_times [OF silent_init TrueI,
      of "blank_video (Finite (1 / 2))" "Suc (Suc (Suc 0))",
      THEN conjunct2, THEN conjunct1, rule_format, unfolded d, OF conjI [OF below reach]]
  then obtain run where run: "processVideo (Inl (Thrown ''not loaded'')) silent
        (blank_video (Finite (1 / 2))) True = Some (Inr (silent, run))"
    and sk: "seeks run = map sample_time [0..<Suc (Suc (Suc 0))]"
    and bl: "\<forall>t\<in>set (seeks run). js_less t (Finite (1 / 2))"
    and cnt: "length (results run) + length (logged run) = length (seeks run)"
    by blast
  from sk have sk': "seeks run = [Finite 0, Finite (6004799503160661 / 36028797018963968),
                     Finite (6004799503160661 / 18014398509481984)]"
    by (simp add: upt_3 sample_time_1 sample_time_2 del: sample_time.simps(2))
  from bl have "list_all (\<lambda>t. js_less t (Finite (1 / 2))) (seeks run)"
    by (simp add: list_all_iff)
  moreover from cnt sk' have "length (results run) + length (logged run) = 3"
    by simp
  moreover
  from processVideo_sample_times [OF silent_init TrueI, of "blank_video (Finite 0)" 0]
  have "processVideo (Inl (Thrown ''not loaded'')) silent (blank_video (Finite 0)) True
       = Some (Inr (silent, \<lparr>results = [], seeks = [], logged = []\<rparr>))"
    by (simp add: d)
  moreover
  from processVideo_sample_times [OF silent_init TrueI, of "blank_video NaN" 0]
  have "processVideo (Inl (Thrown ''not loaded'')) silent (blank_video NaN) True
       = Some (Inr (silent, \<lparr>results = [], seeks = [], logged = []\<rparr>))"
    by (simp add: d)
  moreover
  have "(3600 :: real) \<le> 2 ^ 40"
    by simp
  with processVideo_sample_times [OF silent_init TrueI, of "blank_video (Finite 3600)" 0 3600,
      THEN conjunct2, THEN conjunct2, rule_format]
  have "\<exists>m run. processVideo (Inl (Thrown ''not loaded'')) silent (blank_video (Finite 3600)) True
                 = Some (Inr (silent, run))
          \<and> length (seeks run) = m"
    by (auto simp: d)
  ultimately show ?thesis
    using run sk' by blast
qed

lemma upt_7:
  "[0..<Suc (Suc (Suc (Suc (Suc (Suc (Suc 0))))))]
     = [0, Suc 0, Suc (Suc 0), Suc (Suc (Suc 0)), Suc (Suc (Suc (Suc 0))),
        Suc (Suc (Suc (Suc (Suc 0)))), Suc (Suc (Suc (Suc (Suc (Suc 0)))))]"
  by (simp add: upt_rec)

lemma one_second_below:
  "\<forall>i<Suc (Suc (Suc (Suc (Suc (Suc (Suc 0)))))).
     js_less (sample_time i) (duration (blank_video (Finite 1)))"
  by (simp add: blank_video_def All_less_Suc sample_time_1 sample_time_2 sample_time_3 sample_time_4
      sample_time_5 sample_time_6 del: sample_time.simps(2))

lemma one_second_reach:
  "\<not> js_less (sample_time (Suc (Suc (Suc (Suc (Suc (Suc (Suc 0))))))))
       (duration (blank_video (Finite 1)))"
  by (simp add: blank_video_def sample_time_7 del: sample_time.simps(2))

text \<open>
  C9, as stated, fails. The arithmetic sequence with step \<open>5 / 30\<close> has six terms below
  1, the seventh being \<open>6 \<sqdot> 5 / 30 = 1\<close>. On a video of 1 second the code seeks seven
  times: the step it adds is below \<open>5 / 30\<close> and the seventh time is the largest number
  below 1.
\<close>

theorem processVideo_one_second_seven_samples:
  "map_option (map_sum id (seeks \<circ> snd))
     (processVideo (Inl (Thrown ''not loaded'')) silent (blank_video (Finite 1)) True)
     = Some (Inr [Finite 0,
                  Finite (6004799503160661 / 36028797018963968),
                  Finite (6004799503160661 / 18014398509481984),
                  Finite (1 / 2),
                  Finite (6004799503160661 / 9007199254740992),
                  Finite (3752999689475413 / 4503599627370496),
                  Finite (9007199254740991 / 9007199254740992)])
   \<and> (9007199254740991 / 9007199254740992 :: real) < 1
   \<and> (6 * (5 / 30) :: real) = 1
   \<and> (6004799503160661 / 36028797018963968 :: real) < 5 / 30"
proof -
  have "processVideo (Inl (Thrown ''not loaded'')) silent (blank_video (Finite 1)) True
     = Some (Inr (silent,
         \<lparr>results = successes silent (blank_video (Finite 1))
                      [0..<Suc (Suc (Suc (Suc (Suc (Suc (Suc 0))))))],
          seeks = map sample_time [0..<Suc (Suc (Suc (Suc (Suc (Suc (Suc 0))))))],
          logged = failures silent (blank_video (Finite 1))
                      [0..<Suc (Suc (Suc (Suc (Suc (Suc (Suc 0))))))]\<rparr>))"
    by (rule processVideo_run [OF silent_init TrueI one_second_below one_second_reach])
  then show ?thesis
    by (simp add: upt_7 sample_time_1 sample_time_2 sample_time_3 sample_time_4
        sample_time_5 sample_time_6 del: sample_time.simps(2))
qed

text \<open>
  C1, as the code has it. When detection fails on a frame, the error is caught and logged
  with the frame number and the loop goes on to the next sample time; the failed frame
  gets no entry in the result sequence. Whether \<open>processVideo\<close> returns does not depend
  on the detector: when the sample times reach the duration, at index \<open>n\<close>, it returns
  normally, having sought all \<open>n\<close> sample times, and the results are the analyses of
  exactly the frames whose detection succeeded, in order, each under its own frame number.
  For every duration that is a finite number up to \<open>2\<^sup>4\<^sup>0\<close> seconds it does return.
\<close>

theorem processVideo_skips_failed_frames:
  assumes "initialize pipeline this = Inr this'" and "has_ctx"
  shows "((\<forall>i<n. js_less (sample_time i) (duration video))
          \<and> \<not> js_less (sample_time n) (duration video) \<longrightarrow>
         (\<exists>run. processVideo pipeline this video has_ctx = Some (Inr (this', run))
            \<and> seeks run = map sample_time [0..<n]
            \<and> results run = successes this' video [0..<n]
            \<and> logged run = failures this' video [0..<n]
            \<and> (\<forall>i<n. \<forall>e. attempt this' video i = Inl e \<longrightarrow>
                  (i, e) \<in> set (logged run) \<and> i \<notin> frame ` set (results run))
            \<and> (\<forall>i<n. \<forall>a. attempt this' video i = Inr a \<longrightarrow>
                  a \<in> set (results run) \<and> frame a = i)))
     \<and> (duration video = Finite d \<and> d \<le> 2 ^ 40 \<longrightarrow>
         (\<exists>m run. processVideo pipeline this video has_ctx = Some (Inr (this', run))
            \<and> seeks run = map sample_time [0..<m]
            \<and> results run = successes this' video [0..<m]
            \<and> logged run = failures this' video [0..<m]))"
proof (intro conjI impI)
  assume h: "(\<forall>i<n. js_less (sample_time i) (duration video))
          \<and> \<not> js_less (sample_time n) (duration video)"
  let ?run = "\<lparr>results = successes this' video [0..<n],
               seeks = map sample_time [0..<n],
               logged = failures this' video [0..<n]\<rparr>"
  have run: "processVideo pipeline this video has_ctx = Some (Inr (this', ?run))"
    using assms h by (intro processVideo_run) simp_all
  have failed: "(i, e) \<in> set (logged ?run) \<and> i \<notin> frame ` set (results ?run)"
    if "i < n" and "attempt this' video i = Inl e" for i e
  proof
    show "(i, e) \<in> set (logged ?run)"
      using that by (simp add: failures_set)
    show "i \<notin> frame ` set (results ?run)"
    proof
      assume "i \<in> frame ` set (results ?run)"
      then obtain a j where "attempt this' video j = Inr a" and "frame a = i"
        by (auto simp: successes_set)
      then have "attempt this' video i = Inr a"
        using attempt_frame by blast
      with that(2) show False by simp
    qed
  qed
  have passed: "a \<in> set (results ?run) \<and> frame a = i"
    if "i < n" and "attempt this' video i = Inr a" for i a
    using that attempt_frame [of this' video i a] by (auto simp: successes_set)
  show "\<exists>run. processVideo pipeline this video has_ctx = Some (Inr (this', run))
            \<and> seeks run = map sample_time [0..<n]
            \<and> results run = successes this' video [0..<n]
            \<and> logged run = failures this' video [0..<n]
            \<and> (\<forall>i<n. \<forall>e. attempt this' video i = Inl e \<longrightarrow>
                  (i, e) \<in> set (logged run) \<and> i \<notin> frame ` set (results run))
            \<and> (\<forall>i<n. \<forall>a. attempt this' video i = Inr a \<longrightarrow>
                  a \<in> set (results run) \<and> frame a = i)"
    apply (rule exI [of _ ?run])
    using run failed passed by simp
next
  assume fin: "duration video = Finite d \<and> d \<le> 2 ^ 40"
  then obtain m where below: "\<forall>i<m. js_less (sample_time i) (duration video)"
    and reach: "\<not> js_less (sample_time m) (duration video)"
    using sample_times_reach [of d] by auto
  from processVideo_run [OF assms below reach]
  show "\<exists>m run. processVideo pipeline this video has_ctx = Some (Inr (this', run))
            \<and> seeks run = map sample_time [0..<m]
            \<and> results run = successes this' video [0..<m]
            \<and> logged run = failures this' video [0..<m]"
    by (intro exI [of _ m]) simp
qed

lemma flaky_attempts:
  "attempt flaky_processor short_video 0 = Inl (Thrown ''detector failed'')"
  "attempt flaky_processor short_video (Suc 0)
     = Inr \<lparr>frame = 1, timestamp = Finite (6004799503160661 / 36028797018963968),
            players = [], ball = None, court = None\<rparr>"
  by (simp_all add: attempt_def processFrame_def flaky_processor_def flaky_def short_video_def
      sample_time_1 classify_def del: sample_time.simps(2))

lemma flaky_below: "\<forall>i<Suc (Suc 0). js_less (sample_time i) (duration short_video)"
  by (simp add: All_less_Suc sample_time_1 short_video_def del: sample_time.simps(2))

lemma flaky_reach: "\<not> js_less (sample_time (Suc (Suc 0))) (duration short_video)"
  by (simp add: sample_time_2 short_video_def del: sample_time.simps(2))

lemma flaky_init: "initialize (Inl (Thrown ''not loaded'')) flaky_processor = Inr flaky_processor"
  by (simp add: initialize_def flaky_processor_def)

lemma upt_2: "[0..<Suc (Suc 0)] = [0, Suc 0]"
  by (simp add: upt_rec)

text \<open>
  C1, as stated, fails. On a video of a quarter of a second two frames are sampled, at 0
  and at the first step; with a detector that fails on the first one the result sequence
  has one entry, for frame 1, and none with empty detections for frame 0.
\<close>

theorem processVideo_failed_frame_not_recorded:
  "processVideo (Inl (Thrown ''not loaded'')) flaky_processor short_video True =
     Some (Inr (flaky_processor,
          \<lparr>results = [\<lparr>frame = 1, timestamp = Finite (6004799503160661 / 36028797018963968),
                       players = [], ball = None, court = None\<rparr>],
           seeks = [Finite 0, Finite (6004799503160661 / 36028797018963968)],
           logged = [(0, Thrown ''detector failed'')]\<rparr>))"
  unfolding processVideo_run [OF flaky_init TrueI flaky_below flaky_reach] upt_2
  by (simp add: successes_def failures_def flaky_attempts sample_time_1
      del: sample_time.simps(2))

theorem processVideo_skips_failed_frames_witness:
  "(\<exists>run. processVideo (Inl (Thrown ''not loaded'')) flaky_processor short_video True
            = Some (Inr (flaky_processor, run))
     \<and> seeks run = [Finite 0, Finite (6004799503160661 / 36028797018963968)]
     \<and> (0, Thrown ''detector failed'') \<in> set (logged run)
     \<and> 0 \<notin> frame ` set (results run)
     \<and> \<lparr>frame = 1, timestamp = Finite (6004799503160661 / 36028797018963968),
         players = [], ball = None, court = None\<rparr>
          \<in> set (results run))
   \<and> (\<exists>m run. processVideo (Inl (Thrown ''not loaded'')) flaky_processor short_video True
            = Some (Inr (flaky_processor, run))
         \<and> results run = successes flaky_processor short_video [0..<m])"
proof -
  from processVideo_skips_failed_frames [OF flaky_init TrueI, of "Suc (Suc 0)" short_video,
      THEN conjunct1, rule_format, OF conjI [OF flaky_below flaky_reach]]
  obtain run where run: "processVideo (Inl (Thrown ''not loaded'')) flaky_processor short_video True
            = Some (Inr (flaky_processor, run))"
    and sk: "seeks run = map sample_time [0..<Suc (Suc 0)]"
    and failed: "\<forall>i<Suc (Suc 0). \<forall>e. attempt flaky_processor short_video i = Inl e \<longrightarrow>
           (i, e) \<in> set (logged run) \<and> i \<notin> frame ` set (results run)"
    and passed: "\<forall>i<Suc (Suc 0). \<forall>a. attempt flaky_processor short_video i = Inr a \<longrightarrow>
           a \<in> set (results run) \<and> frame a = i"
    by blast
  from sk have "seeks run = [Finite 0, Finite (6004799503160661 / 36028797018963968)]"
    by (simp add: upt_2 sample_time_1 del: sample_time.simps(2))
  moreover from failed [rule_format, of 0] flaky_attempts(1)
  have "(0, Thrown ''detector failed'') \<in> set (logged run) \<and> 0 \<notin> frame ` set (results run)"
    by simp
  moreover from passed [rule_format, of "Suc 0"] flaky_attempts(2)
  have "\<lparr>frame = 1, timestamp = Finite (6004799503160661 / 36028797018963968),
         players = [], ball = None, court = None\<rparr>
          \<in> set (results run)"
    by simp
  moreover
  have "duration short_video = Finite (1 / 4) \<and> (1 / 4 :: real) \<le> 2 ^ 40"
    by (simp add: short_video_def)
  from processVideo_skips_failed_frames [OF flaky_init TrueI, of 0 short_video "1 / 4",
      THEN conjunct2, rule_format, OF this]
  have "\<exists>m run. processVideo (Inl (Thrown ''not loaded'')) flaky_processor short_video True
            = Some (Inr (flaky_processor, run))
         \<and> results run = successes flaky_processor short_video [0..<m]"
    by blast
  ultimately show ?thesis
    using run by blast
qed

end
